theory Spec2Isabelle
  imports Complex_Main
begin

section \<open>Strategy chart (strategy.h, strategy.cpp)\<close>

text \<open>
  The three lookup tables of \<open>StrategyChart\<close> are \<open>std::map<std::pair<int,int>, char>\<close>,
  keyed by (player total, dealer card). They are modelled as partial maps and are built
  exactly as the constructor builds them: by the nested \<open>for\<close> loops of
  \<open>build_hard_totals\<close>, \<open>build_soft_totals\<close> and \<open>build_pairs\<close>, each loop a
  \<open>fold\<close> over the values the loop variable takes, each assignment a map update.
  The members are named as in the class, without the trailing underscore (which Isabelle
  reserves).
\<close>

type_synonym table = "int \<times> int \<rightharpoonup> char"

record strategy_chart =
  hard_totals :: table
  soft_totals :: table
  pairs :: table
  mnemonics :: "string \<rightharpoonup> string"
  dealer_groups :: "string \<rightharpoonup> int list"

definition build_hard_totals :: "table \<Rightarrow> table" where
  "build_hard_totals m0 =
    (let m1 = fold (\<lambda>total. fold (\<lambda>dealer m. m((total, dealer) \<mapsto> CHR ''H'')) [2..11])
                [5..8] m0;
         m2 = fold (\<lambda>dealer m.
                if dealer \<ge> 3 \<and> dealer \<le> 6 then m((9, dealer) \<mapsto> CHR ''D'')
                else m((9, dealer) \<mapsto> CHR ''H'')) [2..11] m1;
         m3 = fold (\<lambda>dealer m.
                if dealer \<ge> 2 \<and> dealer \<le> 9 then m((10, dealer) \<mapsto> CHR ''D'')
                else m((10, dealer) \<mapsto> CHR ''H'')) [2..11] m2;
         m4 = fold (\<lambda>dealer m.
                if dealer \<le> 10 then m((11, dealer) \<mapsto> CHR ''D'')
                else m((11, dealer) \<mapsto> CHR ''H'')) [2..11] m3;
         m5 = fold (\<lambda>dealer m.
                if dealer \<ge> 4 \<and> dealer \<le> 6 then m((12, dealer) \<mapsto> CHR ''S'')
                else m((12, dealer) \<mapsto> CHR ''H'')) [2..11] m4;
         m6 = fold (\<lambda>total. fold (\<lambda>dealer m.
                if dealer \<ge> 2 \<and> dealer \<le> 6 then m((total, dealer) \<mapsto> CHR ''S'')
                else m((total, dealer) \<mapsto> CHR ''H'')) [2..11]) [13..16] m5;
         m7 = fold (\<lambda>total. fold (\<lambda>dealer m. m((total, dealer) \<mapsto> CHR ''S'')) [2..11])
                [17..21] m6
     in m7)"

definition build_soft_totals :: "table \<Rightarrow> table" where
  "build_soft_totals m0 =
    (let m1 = fold (\<lambda>total. fold (\<lambda>dealer m.
                if dealer \<ge> 5 \<and> dealer \<le> 6 then m((total, dealer) \<mapsto> CHR ''D'')
                else m((total, dealer) \<mapsto> CHR ''H'')) [2..11]) [13, 14] m0;
         m2 = fold (\<lambda>total. fold (\<lambda>dealer m.
                if dealer \<ge> 4 \<and> dealer \<le> 6 then m((total, dealer) \<mapsto> CHR ''D'')
                else m((total, dealer) \<mapsto> CHR ''H'')) [2..11]) [15, 16] m1;
         m3 = fold (\<lambda>dealer m.
                if dealer \<ge> 3 \<and> dealer \<le> 6 then m((17, dealer) \<mapsto> CHR ''D'')
                else m((17, dealer) \<mapsto> CHR ''H'')) [2..11] m2;
         m4 = fold (\<lambda>dealer m.
                if dealer = 2 \<or> dealer = 7 \<or> dealer = 8 then m((18, dealer) \<mapsto> CHR ''S'')
                else if dealer \<ge> 3 \<and> dealer \<le> 6 then m((18, dealer) \<mapsto> CHR ''D'')
                else m((18, dealer) \<mapsto> CHR ''H'')) [2..11] m3;
         m5 = fold (\<lambda>total. fold (\<lambda>dealer m. m((total, dealer) \<mapsto> CHR ''S'')) [2..11])
                [19, 20, 21] m4
     in m5)"

definition build_pairs :: "table \<Rightarrow> table" where
  "build_pairs m0 =
    (let m1 = fold (\<lambda>dealer m. m((11, dealer) \<mapsto> CHR ''Y'')) [2..11] m0;
         m2 = fold (\<lambda>pair_val. fold (\<lambda>dealer m.
                if dealer \<ge> 2 \<and> dealer \<le> 7 then m((pair_val, dealer) \<mapsto> CHR ''Y'')
                else m((pair_val, dealer) \<mapsto> CHR ''H'')) [2..11]) [2, 3] m1;
         m3 = fold (\<lambda>dealer m.
                if dealer \<ge> 5 \<and> dealer \<le> 6 then m((4, dealer) \<mapsto> CHR ''Y'')
                else m((4, dealer) \<mapsto> CHR ''H'')) [2..11] m2;
         m4 = fold (\<lambda>dealer m.
                if dealer \<ge> 2 \<and> dealer \<le> 9 then m((5, dealer) \<mapsto> CHR ''D'')
                else m((5, dealer) \<mapsto> CHR ''H'')) [2..11] m3;
         m5 = fold (\<lambda>dealer m.
                if dealer \<ge> 2 \<and> dealer \<le> 6 then m((6, dealer) \<mapsto> CHR ''Y'')
                else m((6, dealer) \<mapsto> CHR ''H'')) [2..11] m4;
         m6 = fold (\<lambda>dealer m.
                if dealer \<ge> 2 \<and> dealer \<le> 7 then m((7, dealer) \<mapsto> CHR ''Y'')
                else m((7, dealer) \<mapsto> CHR ''H'')) [2..11] m5;
         m7 = fold (\<lambda>dealer m. m((8, dealer) \<mapsto> CHR ''Y'')) [2..11] m6;
         m8 = fold (\<lambda>dealer m.
                if dealer = 7 \<or> dealer = 10 \<or> dealer = 11 then m((9, dealer) \<mapsto> CHR ''S'')
                else m((9, dealer) \<mapsto> CHR ''Y'')) [2..11] m7;
         m9 = fold (\<lambda>dealer m. m((10, dealer) \<mapsto> CHR ''S'')) [2..11] m8
     in m9)"

definition build_mnemonics :: "(string \<rightharpoonup> string) \<Rightarrow> (string \<rightharpoonup> string)" where
  "build_mnemonics m0 =
     m0(''dealer_weak'' \<mapsto> ''Dealer bust cards (4,5,6) = player gets greedy'',
        ''always_split'' \<mapsto> ''Aces and eights, don't hesitate'',
        ''never_split'' \<mapsto> ''Tens and fives, keep them alive'',
        ''teens_vs_strong'' \<mapsto> ''Teens stay vs weak, flee from strong'',
        ''soft_17'' \<mapsto> ''A,7 is the tricky soft hand'',
        ''hard_12'' \<mapsto> ''12 is the exception - only stand vs 4,5,6'',
        ''doubles'' \<mapsto> ''Double when dealer is weak and you can improve'')"

text \<open>The constructor: the object every member function below is called on.\<close>

definition StrategyChart :: strategy_chart where
  "StrategyChart =
     \<lparr> hard_totals = build_hard_totals Map.empty,
       soft_totals = build_soft_totals Map.empty,
       pairs = build_pairs Map.empty,
       mnemonics = build_mnemonics Map.empty,
       dealer_groups = Map.empty(''weak'' \<mapsto> [4, 5, 6],
                                  ''medium'' \<mapsto> [2, 3, 7, 8],
                                  ''strong'' \<mapsto> [9, 10, 11]) \<rparr>"

text \<open>
  \<open>get_correct_action\<close>: \<open>find\<close> on the table chosen by the category string, with
  \<open>'H'\<close> when the key is absent. The last branch of the source is a plain \<open>else\<close>:
  every string other than \<open>"pair"\<close> and \<open>"soft"\<close> reads the hard table.
\<close>

definition get_correct_action :: "strategy_chart \<Rightarrow> string \<Rightarrow> int \<Rightarrow> int \<Rightarrow> char" where
  "get_correct_action chart hand_type player_total dealer_card =
    (let key = (player_total, dealer_card) in
     if hand_type = ''pair'' then
       (case pairs chart key of Some a \<Rightarrow> a | None \<Rightarrow> CHR ''H'')
     else if hand_type = ''soft'' then
       (case soft_totals chart key of Some a \<Rightarrow> a | None \<Rightarrow> CHR ''H'')
     else
       (case hard_totals chart key of Some a \<Rightarrow> a | None \<Rightarrow> CHR ''H''))"

text \<open>
  \<open>std::map::at\<close> throws \<open>std::out_of_range\<close> on a missing key; the exception is a
  value of the model.
\<close>

datatype error = OutOfRange

definition map_at :: "('k \<rightharpoonup> 'v) \<Rightarrow> 'k \<Rightarrow> error + 'v" where
  "map_at m k = (case m k of None \<Rightarrow> Inl OutOfRange | Some v \<Rightarrow> Inr v)"

definition get_explanation :: "strategy_chart \<Rightarrow> string \<Rightarrow> int \<Rightarrow> int \<Rightarrow> error + string" where
  "get_explanation chart hand_type player_total dealer_card =
    (if hand_type = ''pair'' \<and> player_total = 11 then map_at (mnemonics chart) ''always_split''
     else if hand_type = ''pair'' \<and> player_total = 8 then map_at (mnemonics chart) ''always_split''
     else if hand_type = ''pair'' \<and> player_total = 10 then map_at (mnemonics chart) ''never_split''
     else if hand_type = ''pair'' \<and> player_total = 5 then map_at (mnemonics chart) ''never_split''
     else if hand_type = ''soft'' \<and> player_total = 18 then map_at (mnemonics chart) ''soft_17''
     else if hand_type = ''hard'' \<and> player_total = 12 then map_at (mnemonics chart) ''hard_12''
     else
       (case map_at (dealer_groups chart) ''weak'' of
          Inl e \<Rightarrow> Inl e
        | Inr weak_cards \<Rightarrow>
           (case map_at (dealer_groups chart) ''strong'' of
              Inl e \<Rightarrow> Inl e
            | Inr strong_cards \<Rightarrow>
               (if dealer_card \<in> set weak_cards then map_at (mnemonics chart) ''dealer_weak''
                else if player_total \<ge> 13 \<and> player_total \<le> 16 \<and>
                        dealer_card \<in> set strong_cards
                  then map_at (mnemonics chart) ''teens_vs_strong''
                else Inr ''Follow basic strategy patterns''))))"

text \<open>\<open>is_absolute_rule\<close> ignores its third argument (the dealer card).\<close>

definition is_absolute_rule :: "strategy_chart \<Rightarrow> string \<Rightarrow> int \<Rightarrow> int \<Rightarrow> bool" where
  "is_absolute_rule chart hand_type player_total dealer_card =
    (if hand_type = ''pair'' \<and>
        (player_total = 11 \<or> player_total = 8 \<or> player_total = 10 \<or> player_total = 5)
       then True
     else if hand_type = ''hard'' \<and> player_total \<ge> 17 then True
     else if hand_type = ''soft'' \<and> player_total \<ge> 19 then True
     else False)"

subsection \<open>The rule table of the specification\<close>

text \<open>
  The four actions and the character codes the chart stores for them
  (\<open>H\<close>, \<open>S\<close>, \<open>D\<close>, \<open>Y\<close>, as documented in strategy.h).
\<close>

datatype action = Hit | Stand | Double | Split

fun action_of_code :: "char \<Rightarrow> action option" where
  "action_of_code c =
    (if c = CHR ''H'' then Some Hit
     else if c = CHR ''S'' then Some Stand
     else if c = CHR ''D'' then Some Double
     else if c = CHR ''Y'' then Some Split
     else None)"

text \<open>
  The table of the specification, row by row as it is written there: one function per
  category, from the player total and the dealer card to the prescribed action.
\<close>

definition hard_rule :: "int \<Rightarrow> int \<Rightarrow> action" where
  "hard_rule t d =
    (if 5 \<le> t \<and> t \<le> 8 then Hit
     else if t = 9 then (if 3 \<le> d \<and> d \<le> 6 then Double else Hit)
     else if t = 10 then (if 2 \<le> d \<and> d \<le> 9 then Double else Hit)
     else if t = 11 then (if 2 \<le> d \<and> d \<le> 10 then Double else Hit)
     else if t = 12 then (if 4 \<le> d \<and> d \<le> 6 then Stand else Hit)
     else if 13 \<le> t \<and> t \<le> 16 then (if 2 \<le> d \<and> d \<le> 6 then Stand else Hit)
     else Stand)"

definition soft_rule :: "int \<Rightarrow> int \<Rightarrow> action" where
  "soft_rule t d =
    (if 13 \<le> t \<and> t \<le> 14 then (if 5 \<le> d \<and> d \<le> 6 then Double else Hit)
     else if 15 \<le> t \<and> t \<le> 16 then (if 4 \<le> d \<and> d \<le> 6 then Double else Hit)
     else if t = 17 then (if 3 \<le> d \<and> d \<le> 6 then Double else Hit)
     else if t = 18 then
       (if d \<in> {2, 7, 8} then Stand else if 3 \<le> d \<and> d \<le> 6 then Double else Hit)
     else Stand)"

definition pair_rule :: "int \<Rightarrow> int \<Rightarrow> action" where
  "pair_rule t d =
    (if t = 11 then Split
     else if t = 2 \<or> t = 3 then (if 2 \<le> d \<and> d \<le> 7 then Split else Hit)
     else if t = 4 then (if 5 \<le> d \<and> d \<le> 6 then Split else Hit)
     else if t = 5 then (if 2 \<le> d \<and> d \<le> 9 then Double else Hit)
     else if t = 6 then (if 2 \<le> d \<and> d \<le> 6 then Split else Hit)
     else if t = 7 then (if 2 \<le> d \<and> d \<le> 7 then Split else Hit)
     else if t = 8 then Split
     else if t = 9 then (if d \<in> {7, 10, 11} then Stand else Split)
     else Stand)"

definition rule_table :: "string \<Rightarrow> int \<Rightarrow> int \<Rightarrow> action" where
  "rule_table category t d =
    (if category = ''hard'' then hard_rule t d
     else if category = ''soft'' then soft_rule t d
     else pair_rule t d)"

text \<open>The valid totals of each category: Hard 5-21, Soft 13-21, Pair 2-11.\<close>

definition valid_total :: "string \<Rightarrow> int \<Rightarrow> bool" where
  "valid_total category t =
    (if category = ''hard'' then 5 \<le> t \<and> t \<le> 21
     else if category = ''soft'' then 13 \<le> t \<and> t \<le> 21
     else if category = ''pair'' then 2 \<le> t \<and> t \<le> 11
     else False)"

text \<open>
  The domain of the table that \<open>get_correct_action\<close> reads for a category string:
  the pair table for \<open>"pair"\<close>, the soft table for \<open>"soft"\<close>, the hard table for
  every other string.
\<close>

definition selected_domain :: "string \<Rightarrow> int \<Rightarrow> int \<Rightarrow> bool" where
  "selected_domain hand_type t d =
    (2 \<le> d \<and> d \<le> 11 \<and>
     (if hand_type = ''pair'' then 2 \<le> t \<and> t \<le> 11
      else if hand_type = ''soft'' then 13 \<le> t \<and> t \<le> 21
      else 5 \<le> t \<and> t \<le> 21))"

subsection \<open>The priority order of the explanations, as the specification words it\<close>

datatype mnemonic =
  AlwaysSplit | NeverSplit | Soft18 | Hard12 | DealerWeak | TeensVsStrong | Generic

text \<open>(a) the specific scenarios: the absolute pairs 11/8/10/5, soft 18, hard 12.\<close>

definition specific_scenario :: "string \<Rightarrow> int \<Rightarrow> mnemonic option" where
  "specific_scenario category t =
    (if category = ''pair'' \<and> (t = 11 \<or> t = 8) then Some AlwaysSplit
     else if category = ''pair'' \<and> (t = 10 \<or> t = 5) then Some NeverSplit
     else if category = ''soft'' \<and> t = 18 then Some Soft18
     else if category = ''hard'' \<and> t = 12 then Some Hard12
     else None)"

text \<open>(a) before (b) dealer weak, before (c) teens against a strong dealer, before (d).\<close>

definition select_mnemonic :: "string \<Rightarrow> int \<Rightarrow> int \<Rightarrow> mnemonic" where
  "select_mnemonic category t d =
    (case specific_scenario category t of
       Some s \<Rightarrow> s
     | None \<Rightarrow>
        (if d \<in> {4, 5, 6} then DealerWeak
         else if 13 \<le> t \<and> t \<le> 16 \<and> d \<in> {9, 10, 11} then TeensVsStrong
         else Generic))"

fun mnemonic_text :: "mnemonic \<Rightarrow> string" where
  "mnemonic_text AlwaysSplit = ''Aces and eights, don't hesitate''"
| "mnemonic_text NeverSplit = ''Tens and fives, keep them alive''"
| "mnemonic_text Soft18 = ''A,7 is the tricky soft hand''"
| "mnemonic_text Hard12 = ''12 is the exception - only stand vs 4,5,6''"
| "mnemonic_text DealerWeak = ''Dealer bust cards (4,5,6) = player gets greedy''"
| "mnemonic_text TeensVsStrong = ''Teens stay vs weak, flee from strong''"
| "mnemonic_text Generic = ''Follow basic strategy patterns''"

section \<open>Session statistics (stats.h, stats.cpp)\<close>

text \<open>
  \<open>CategoryData\<close> and \<open>Statistics\<close> are records of the source's members (named
  without the trailing underscore; \<open>total\<close> and \<open>correct\<close> carry a suffix). The two
  \<open>std::map<std::string, CategoryData>\<close> members are partial maps. The four counters
  are C++ \<open>int\<close>s (32 bits), only ever zeroed or incremented with \<open>++\<close>.
\<close>

record CategoryData =
  correct_n :: int
  total_n :: int

record statistics =
  total_attempts :: int
  correct_answers :: int
  by_category :: "string \<rightharpoonup> CategoryData"
  by_dealer_strength :: "string \<rightharpoonup> CategoryData"

text \<open>\<open>CategoryData{}\<close>: both members default to 0.\<close>

definition CategoryData0 :: CategoryData where
  "CategoryData0 = \<lparr> correct_n = 0, total_n = 0 \<rparr>"

text \<open>The constructor.\<close>

definition Statistics :: statistics where
  "Statistics =
     \<lparr> total_attempts = 0,
       correct_answers = 0,
       by_category = Map.empty(''hard'' \<mapsto> CategoryData0,
                               ''soft'' \<mapsto> CategoryData0,
                               ''pair'' \<mapsto> CategoryData0),
       by_dealer_strength = Map.empty(''weak'' \<mapsto> CategoryData0,
                                      ''medium'' \<mapsto> CategoryData0,
                                      ''strong'' \<mapsto> CategoryData0) \<rparr>"

text \<open>
  \<open>x++\<close> on an \<open>int\<close>. Below \<open>INT_MAX = 2147483647\<close> it adds one. At \<open>INT_MAX\<close>
  the C++ standard leaves the result undefined; the two's-complement machine wraps to
  \<open>INT_MIN = -2147483648\<close>, and that is the value the model takes.
\<close>

definition int_incr :: "int \<Rightarrow> int" where
  "int_incr x = (if x = 2147483647 then - 2147483648 else x + 1)"

text \<open>
  \<open>record_attempt\<close>: the global counters first, then each bucket map under its
  \<open>find(...) != end()\<close> guard. Inside the guard \<open>operator[]\<close> reads an existing entry,
  so it never inserts.
\<close>

definition record_attempt :: "statistics \<Rightarrow> string \<Rightarrow> string \<Rightarrow> bool \<Rightarrow> statistics" where
  "record_attempt s hand_type dealer_strength correct =
    (let s1 = s\<lparr>total_attempts := int_incr (total_attempts s)\<rparr>;
         s2 = (if correct then s1\<lparr>correct_answers := int_incr (correct_answers s1)\<rparr>
               else s1);
         s3 = (case by_category s2 hand_type of
                 None \<Rightarrow> s2
               | Some cd \<Rightarrow>
                  (let cd1 = cd\<lparr>total_n := int_incr (total_n cd)\<rparr>;
                       cd2 = (if correct then cd1\<lparr>correct_n := int_incr (correct_n cd1)\<rparr>
                              else cd1)
                   in s2\<lparr>by_category := (by_category s2)(hand_type \<mapsto> cd2)\<rparr>));
         s4 = (case by_dealer_strength s3 dealer_strength of
                 None \<Rightarrow> s3
               | Some cd \<Rightarrow>
                  (let cd1 = cd\<lparr>total_n := int_incr (total_n cd)\<rparr>;
                       cd2 = (if correct then cd1\<lparr>correct_n := int_incr (correct_n cd1)\<rparr>
                              else cd1)
                   in s3\<lparr>by_dealer_strength :=
                           (by_dealer_strength s3)(dealer_strength \<mapsto> cd2)\<rparr>))
     in s4)"

text \<open>
  The accuracies are \<open>double\<close>s computed as
  \<open>(static_cast<double>(correct) / total) * 100.0\<close>. The conversion of an \<open>int\<close> to
  \<open>double\<close> is exact; the division and the multiplication each round their exact real
  result to a \<open>double\<close>. The rounding is the parameter \<open>rnd\<close> of the model: the claims
  below need of it only that it is monotone and leaves 0, 1 and 100 as they are, which
  every IEEE rounding mode does. \<open>exact\<close> is the rounding that changes nothing.
  A division by zero would produce an infinity or a NaN instead of a number: that
  outcome is \<open>None\<close>, so that the zero guards of the three accuracy functions are
  visible in what they return.
\<close>

definition percentage :: "(real \<Rightarrow> real) \<Rightarrow> int \<Rightarrow> int \<Rightarrow> real option" where
  "percentage rnd c t =
    (if t = 0 then None else Some (rnd (rnd (real_of_int c / real_of_int t) * 100)))"

definition exact :: "real \<Rightarrow> real" where
  "exact x = x"

definition rounding :: "(real \<Rightarrow> real) \<Rightarrow> bool" where
  "rounding rnd \<longleftrightarrow> mono rnd \<and> rnd 0 = 0 \<and> rnd 1 = 1 \<and> rnd 100 = 100"

definition get_category_accuracy ::
  "(real \<Rightarrow> real) \<Rightarrow> statistics \<Rightarrow> string \<Rightarrow> real option" where
  "get_category_accuracy rnd s category =
    (case by_category s category of
       None \<Rightarrow> Some 0
     | Some cd \<Rightarrow>
        if total_n cd = 0 then Some 0 else percentage rnd (correct_n cd) (total_n cd))"

definition get_dealer_strength_accuracy ::
  "(real \<Rightarrow> real) \<Rightarrow> statistics \<Rightarrow> string \<Rightarrow> real option" where
  "get_dealer_strength_accuracy rnd s strength =
    (case by_dealer_strength s strength of
       None \<Rightarrow> Some 0
     | Some cd \<Rightarrow>
        if total_n cd = 0 then Some 0 else percentage rnd (correct_n cd) (total_n cd))"

definition get_session_accuracy :: "(real \<Rightarrow> real) \<Rightarrow> statistics \<Rightarrow> real option" where
  "get_session_accuracy rnd s =
    (if total_attempts s = 0 then Some 0
     else percentage rnd (correct_answers s) (total_attempts s))"

text \<open>\<open>reset_session\<close>: the two loops assign \<open>CategoryData{}\<close> to every entry.\<close>

definition reset_session :: "statistics \<Rightarrow> statistics" where
  "reset_session s =
     s\<lparr> total_attempts := 0,
        correct_answers := 0,
        by_category := (\<lambda>k. map_option (\<lambda>_. CategoryData0) (by_category s k)),
        by_dealer_strength := (\<lambda>k. map_option (\<lambda>_. CategoryData0) (by_dealer_strength s k)) \<rparr>"

definition get_dealer_strength :: "int \<Rightarrow> string" where
  "get_dealer_strength dealer_card =
    (if dealer_card = 4 \<or> dealer_card = 5 \<or> dealer_card = 6 then ''weak''
     else if dealer_card = 2 \<or> dealer_card = 3 \<or> dealer_card = 7 \<or> dealer_card = 8
       then ''medium''
     else ''strong'')"

text \<open>
  The members are private, so a \<open>Statistics\<close> object is only ever in a state that the
  constructor followed by some sequence of the two mutating member functions produces.
\<close>

datatype call = RecordAttempt string string bool | ResetSession

fun do_call :: "statistics \<Rightarrow> call \<Rightarrow> statistics" where
  "do_call s (RecordAttempt hand_type dealer_strength correct) =
     record_attempt s hand_type dealer_strength correct"
| "do_call s ResetSession = reset_session s"

definition after :: "call list \<Rightarrow> statistics" where
  "after calls = foldl do_call Statistics calls"

text \<open>
  The number of attempts recorded since the object was constructed or last reset.
\<close>

fun count_call :: "nat \<Rightarrow> call \<Rightarrow> nat" where
  "count_call n (RecordAttempt hand_type dealer_strength correct) = Suc n"
| "count_call n ResetSession = 0"

definition attempts_since_reset :: "call list \<Rightarrow> nat" where
  "attempts_since_reset calls = foldl count_call 0 calls"

subsection \<open>The invariants of the statistics\<close>

text \<open>
  Every state of the object has exactly the keys the constructor gave the two maps
  (\<open>keys_inv\<close>). While fewer than \<open>2^31\<close> attempts have been recorded since the last
  reset, no counter has wrapped: the global total is the number of those attempts, and in
  each pair of counters the correct count lies between 0 and the total
  (\<open>counting_inv\<close>). \<open>bump\<close> is what one recorded attempt does to a bucket.
\<close>

definition keys_inv :: "statistics \<Rightarrow> bool" where
  "keys_inv s \<longleftrightarrow>
     dom (by_category s) = {''hard'', ''soft'', ''pair''} \<and>
     dom (by_dealer_strength s) = {''weak'', ''medium'', ''strong''}"

definition counted :: "nat \<Rightarrow> CategoryData \<Rightarrow> bool" where
  "counted n cd \<longleftrightarrow> 0 \<le> correct_n cd \<and> correct_n cd \<le> total_n cd \<and> total_n cd \<le> int n"

definition counting_inv :: "nat \<Rightarrow> statistics \<Rightarrow> bool" where
  "counting_inv n s \<longleftrightarrow>
     total_attempts s = int n \<and>
     0 \<le> correct_answers s \<and> correct_answers s \<le> int n \<and>
     (\<forall>k cd. by_category s k = Some cd \<longrightarrow> counted n cd) \<and>
     (\<forall>k cd. by_dealer_strength s k = Some cd \<longrightarrow> counted n cd)"

definition bump :: "bool \<Rightarrow> CategoryData \<Rightarrow> CategoryData" where
  "bump c cd =
     cd\<lparr>total_n := int_incr (total_n cd),
        correct_n := (if c then int_incr (correct_n cd) else correct_n cd)\<rparr>"

section \<open>Hand generation (trainer.cpp)\<close>

text \<open>
  \<open>generate_hand_cards\<close> draws from a \<open>std::mt19937\<close> through
  \<open>std::uniform_int_distribution<>(a, b)\<close>, which returns some integer of \<open>[a, b]\<close>
  and advances the generator. The generator is modelled by the sequence of raw numbers it
  is going to deliver, and a draw reduces the next raw number into \<open>[a, b]\<close>. Every value
  of \<open>[a, b]\<close> is the outcome of the draw for some raw number, so a statement about all
  generators is a statement about all sequences of draws. The source only ever draws with
  \<open>a \<le> b\<close>: the first draw is made for a total above 11, the draws of the loop under
  the guard \<open>max_card >= 2\<close>. \<open>constant_gen n\<close> delivers the raw number \<open>n\<close> forever.
\<close>

type_synonym rng = "nat \<Rightarrow> nat"

definition uniform_int_distribution :: "int \<Rightarrow> int \<Rightarrow> rng \<Rightarrow> int \<times> rng" where
  "uniform_int_distribution a b gen = (a + int (gen 0 mod nat (b - a + 1)), \<lambda>i. gen (Suc i))"

definition constant_gen :: "nat \<Rightarrow> rng" where
  "constant_gen n = (\<lambda>_. n)"

text \<open>
  The \<open>while (remaining > 10)\<close> loop of the hard branch, with its \<open>break\<close>. It is
  defined without any assumption that it ends: \<open>None\<close> is the loop that runs forever.
  The state is the card vector, the remaining total and the generator.
\<close>

partial_function (option) peel_loop ::
  "int list \<Rightarrow> int \<Rightarrow> rng \<Rightarrow> (int list \<times> int \<times> rng) option" where
  "peel_loop cards remaining gen =
    (if remaining > 10 then
       (let max_card = min 10 (remaining - 2) in
        if max_card < 2 then Some (cards, remaining, gen)
        else
          (case uniform_int_distribution 2 max_card gen of
             (card', gen') \<Rightarrow> peel_loop (cards @ [card']) (remaining - card') gen'))
     else Some (cards, remaining, gen))"

text \<open>
  \<open>generate_hand_cards\<close>. The arithmetic of the hard branch stays far inside the range
  of \<open>int\<close> (the total exceeds 11 there and only shrinks), so integers are unbounded in
  the model.
\<close>

definition generate_hand_cards :: "rng \<Rightarrow> string \<Rightarrow> int \<Rightarrow> int list option" where
  "generate_hand_cards gen hand_type player_total =
    (if hand_type = ''pair'' then Some [player_total, player_total]
     else if hand_type = ''soft'' then
       (let other_card = player_total - 11 in Some [11, other_card])
     else if player_total \<le> 11 then Some [player_total]
     else
       (case uniform_int_distribution 2 (min 10 (player_total - 2)) gen of
          (first_card, gen1) \<Rightarrow>
            (let second_card = player_total - first_card in
             if second_card > 10 then
               (case peel_loop [first_card] (player_total - first_card) gen1 of
                  None \<Rightarrow> None
                | Some (cards, remaining, gen2) \<Rightarrow>
                    Some (if remaining \<ge> 2 then cards @ [remaining] else cards))
             else if second_card < 2 then Some [player_total]
             else Some [first_card, second_card])))"

subsection \<open>What the loops build\<close>

lemma fold_row:
  assumes "\<And>d m. body d m = m((t, d) \<mapsto> f d)"
  shows "fold body ds m k =
           (if fst k = t \<and> snd k \<in> set ds then Some (f (snd k)) else m k)"
proof (induction ds arbitrary: m)
  case Nil
  show ?case by simp
next
  case (Cons d ds)
  have "fold body (d # ds) m k = fold body ds (body d m) k"
    by simp
  also have "\<dots> = (if fst k = t \<and> snd k \<in> set ds then Some (f (snd k)) else body d m k)"
    by (rule Cons.IH)
  also have "\<dots> = (if fst k = t \<and> snd k \<in> set (d # ds) then Some (f (snd k)) else m k)"
    unfolding assms by (cases k) auto
  finally show ?case .
qed

lemma fold_block:
  assumes "\<And>t d m. body t d m = m((t, d) \<mapsto> f t d)"
  shows "fold (\<lambda>t. fold (body t) ds) ts m k =
           (if fst k \<in> set ts \<and> snd k \<in> set ds then Some (f (fst k) (snd k)) else m k)"
proof (induction ts arbitrary: m)
  case Nil
  show ?case by simp
next
  case (Cons t ts)
  have row: "fold (body t) ds m k =
      (if fst k = t \<and> snd k \<in> set ds then Some (f t (snd k)) else m k)" for m
    by (rule fold_row) (rule assms)
  have "fold (\<lambda>t. fold (body t) ds) (t # ts) m k =
          fold (\<lambda>t. fold (body t) ds) ts (fold (body t) ds m) k"
    by simp
  also have "\<dots> = (if fst k \<in> set ts \<and> snd k \<in> set ds then Some (f (fst k) (snd k))
                    else fold (body t) ds m k)"
    by (rule Cons.IH)
  also have "\<dots> = (if fst k \<in> set (t # ts) \<and> snd k \<in> set ds then Some (f (fst k) (snd k))
                    else m k)"
    unfolding row by auto
  finally show ?case .
qed

lemma row_upto:
  assumes "\<And>d m. body d m = m((t, d) \<mapsto> f d)"
  shows "fold body [a..b] m (t', d') =
           (if t' = t \<and> a \<le> d' \<and> d' \<le> b then Some (f d') else m (t', d'))"
  using fold_row [of body t f "[a..b]" m "(t', d')", OF assms]
  by (simp only: set_upto atLeastAtMost_iff fst_conv snd_conv)

lemma block_upto:
  assumes "\<And>t d m. body t d m = m((t, d) \<mapsto> f t d)"
  shows "fold (\<lambda>t. fold (body t) [a..b]) ts m (t', d') =
           (if t' \<in> set ts \<and> a \<le> d' \<and> d' \<le> b then Some (f t' d') else m (t', d'))"
  using fold_block [of body f "[a..b]" ts m "(t', d')", OF assms]
  by (simp only: set_upto atLeastAtMost_iff fst_conv snd_conv)

text \<open>
  An assignment under an \<open>if\<close> with the same key in both branches stores the value the
  \<open>if\<close> selects.
\<close>

lemma upd_if: "(if c then m(k \<mapsto> a) else m(k \<mapsto> b)) = m(k \<mapsto> (if c then a else b))"
  by simp

lemma upd_if2:
  "(if c then m(k \<mapsto> a) else if c' then m(k \<mapsto> b) else m(k \<mapsto> b')) =
     m(k \<mapsto> (if c then a else if c' then b else b'))"
  by simp

lemmas loop_lookup =
  row_upto [OF upd_if] row_upto [OF upd_if2] row_upto [OF refl]
  block_upto [OF upd_if] block_upto [OF refl]

lemma hard_totals_lookup:
  "build_hard_totals Map.empty (t, d) =
     (if 5 \<le> t \<and> t \<le> 21 \<and> 2 \<le> d \<and> d \<le> 11 then
        Some (if t \<le> 8 then CHR ''H''
              else if t = 9 then (if 3 \<le> d \<and> d \<le> 6 then CHR ''D'' else CHR ''H'')
              else if t = 10 then (if d \<le> 9 then CHR ''D'' else CHR ''H'')
              else if t = 11 then (if d \<le> 10 then CHR ''D'' else CHR ''H'')
              else if t = 12 then (if 4 \<le> d \<and> d \<le> 6 then CHR ''S'' else CHR ''H'')
              else if t \<le> 16 then (if d \<le> 6 then CHR ''S'' else CHR ''H'')
              else CHR ''S'')
      else None)"
  unfolding build_hard_totals_def Let_def
  apply (simp only: loop_lookup set_upto atLeastAtMost_iff)
  apply auto
  done

lemma soft_totals_lookup:
  "build_soft_totals Map.empty (t, d) =
     (if 13 \<le> t \<and> t \<le> 21 \<and> 2 \<le> d \<and> d \<le> 11 then
        Some (if t \<le> 14 then (if 5 \<le> d \<and> d \<le> 6 then CHR ''D'' else CHR ''H'')
              else if t \<le> 16 then (if 4 \<le> d \<and> d \<le> 6 then CHR ''D'' else CHR ''H'')
              else if t = 17 then (if 3 \<le> d \<and> d \<le> 6 then CHR ''D'' else CHR ''H'')
              else if t = 18 then
                (if d = 2 \<or> d = 7 \<or> d = 8 then CHR ''S''
                 else if 3 \<le> d \<and> d \<le> 6 then CHR ''D'' else CHR ''H'')
              else CHR ''S'')
      else None)"
  unfolding build_soft_totals_def Let_def
  apply (simp only: loop_lookup set_upto atLeastAtMost_iff)
  apply auto
  done

lemma pairs_lookup:
  "build_pairs Map.empty (t, d) =
     (if 2 \<le> t \<and> t \<le> 11 \<and> 2 \<le> d \<and> d \<le> 11 then
        Some (if t = 11 then CHR ''Y''
              else if t \<le> 3 then (if d \<le> 7 then CHR ''Y'' else CHR ''H'')
              else if t = 4 then (if 5 \<le> d \<and> d \<le> 6 then CHR ''Y'' else CHR ''H'')
              else if t = 5 then (if d \<le> 9 then CHR ''D'' else CHR ''H'')
              else if t = 6 then (if d \<le> 6 then CHR ''Y'' else CHR ''H'')
              else if t = 7 then (if d \<le> 7 then CHR ''Y'' else CHR ''H'')
              else if t = 8 then CHR ''Y''
              else if t = 9 then (if d = 7 \<or> d = 10 \<or> d = 11 then CHR ''S'' else CHR ''Y'')
              else CHR ''S'')
      else None)"
  unfolding build_pairs_def Let_def
  apply (simp only: loop_lookup set_upto atLeastAtMost_iff)
  apply (auto; presburger)
  done

lemma get_correct_action_lookup:
  "get_correct_action StrategyChart hand_type t d =
     (case (if hand_type = ''pair'' then build_pairs Map.empty (t, d)
            else if hand_type = ''soft'' then build_soft_totals Map.empty (t, d)
            else build_hard_totals Map.empty (t, d)) of
        Some a \<Rightarrow> a
      | None \<Rightarrow> CHR ''H'')"
  by (simp add: get_correct_action_def StrategyChart_def)

subsection \<open>Claims about the strategy chart\<close>

text \<open>
  C1. For every hand category in {hard, soft, pair}, every player total in the valid range
  of that category (Hard 5-21, Soft 13-21, Pair 2-11) and every dealer card in [2,11],
  \<open>get_correct_action\<close> returns the code of one of the four actions, and that action is
  the entry of the specification's rule table.
\<close>

theorem get_correct_action_matches_table:
  assumes "valid_total category t" and "2 \<le> d" and "d \<le> 11"
  shows "action_of_code (get_correct_action StrategyChart category t d) =
           Some (rule_table category t d)"
proof -
  consider (hard) "category = ''hard''" "5 \<le> t" "t \<le> 21"
    | (soft) "category = ''soft''" "13 \<le> t" "t \<le> 21"
    | (pair) "category = ''pair''" "2 \<le> t" "t \<le> 11"
    using assms(1) by (auto simp: valid_total_def split: if_splits)
  then show ?thesis
  proof cases
    case hard
    with assms(2,3) show ?thesis
      by (simp add: get_correct_action_lookup hard_totals_lookup rule_table_def hard_rule_def)
  next
    case soft
    with assms(2,3) show ?thesis
      by (simp add: get_correct_action_lookup soft_totals_lookup rule_table_def soft_rule_def)
  next
    case pair
    with assms(2,3) show ?thesis
      by (auto simp: get_correct_action_lookup pairs_lookup rule_table_def pair_rule_def)
  qed
qed

theorem get_correct_action_matches_table_witness:
  "valid_total ''hard'' 16 \<and> (2::int) \<le> 10 \<and> (10::int) \<le> 11 \<and>
   action_of_code (get_correct_action StrategyChart ''hard'' 16 10) = Some Hit \<and>
   rule_table ''hard'' 16 10 = Hit"
proof -
  have v: "valid_total ''hard'' 16"
    by (simp add: valid_total_def)
  have r: "rule_table ''hard'' 16 10 = Hit"
    by (simp add: rule_table_def hard_rule_def)
  show ?thesis
    using get_correct_action_matches_table [OF v, of 10] v r by simp
qed

text \<open>
  C3, as stated: every query whose key is outside the table's domain, or whose category
  string names no populated table, returns Hit. The second half fails: a category string
  other than \<open>"pair"\<close> and \<open>"soft"\<close> reaches the final \<open>else\<close> and is answered from
  the hard table, so an unknown category with total 17 stands.
\<close>

theorem unknown_category_counterexample:
  "''banana'' \<notin> {''hard'', ''soft'', ''pair''} \<and>
   action_of_code (get_correct_action StrategyChart ''banana'' 17 10) = Some Stand"
  by (simp add: get_correct_action_lookup hard_totals_lookup)

text \<open>
  C3, amended: a query whose key (total, dealer card) is outside the domain of the table
  that the category string selects (the pair table for \<open>"pair"\<close>, the soft table for
  \<open>"soft"\<close>, the hard table for every other string) returns \<open>'H'\<close>; and a category
  string other than \<open>"pair"\<close> and \<open>"soft"\<close> is answered exactly as \<open>"hard"\<close> is.
\<close>

theorem get_correct_action_default_hit:
  "(\<not> selected_domain hand_type t d \<longrightarrow>
      get_correct_action StrategyChart hand_type t d = CHR ''H'') \<and>
   (hand_type \<noteq> ''pair'' \<and> hand_type \<noteq> ''soft'' \<longrightarrow>
      get_correct_action StrategyChart hand_type t d =
      get_correct_action StrategyChart ''hard'' t d)"
  by (simp add: get_correct_action_lookup hard_totals_lookup soft_totals_lookup pairs_lookup
        selected_domain_def)

theorem get_correct_action_default_hit_witness:
  "\<not> selected_domain ''banana'' 30 10 \<and>
   ''banana'' \<noteq> ''pair'' \<and> ''banana'' \<noteq> ''soft'' \<and>
   get_correct_action StrategyChart ''banana'' 30 10 = CHR ''H'' \<and>
   get_correct_action StrategyChart ''hard'' 30 10 = CHR ''H''"
  using get_correct_action_default_hit [of "''banana''" 30 10]
  by (auto simp: selected_domain_def)

text \<open>
  C4. \<open>get_explanation\<close> never throws, and the text it returns is the one selected by the
  priority order of the specification: the specific scenarios first (absolute pairs
  11/8/10/5, soft 18, hard 12), then "dealer weak" for a dealer card in {4,5,6}, then
  "teens vs strong" for a total in [13,16] against a dealer card in {9,10,11}, then the
  generic text.
\<close>

theorem get_explanation_priority:
  "get_explanation StrategyChart hand_type t d =
     Inr (mnemonic_text (select_mnemonic hand_type t d))"
  by (auto simp: get_explanation_def StrategyChart_def build_mnemonics_def map_at_def
        select_mnemonic_def specific_scenario_def)

text \<open>
  C5. \<open>is_absolute_rule\<close> is true exactly for Pair with total in {5, 8, 10, 11}, Hard
  with total at least 17 and Soft with total at least 19, whatever the dealer card.
\<close>

theorem is_absolute_rule_iff:
  "is_absolute_rule StrategyChart hand_type t d \<longleftrightarrow>
     (hand_type = ''pair'' \<and> t \<in> {5, 8, 10, 11}) \<or>
     (hand_type = ''hard'' \<and> 17 \<le> t) \<or>
     (hand_type = ''soft'' \<and> 19 \<le> t)"
  by (auto simp: is_absolute_rule_def)

subsection \<open>What one call does to the members\<close>

lemma record_attempt_total_attempts:
  "total_attempts (record_attempt s h d c) = int_incr (total_attempts s)"
  by (simp add: record_attempt_def Let_def split: option.splits)

lemma record_attempt_correct_answers:
  "correct_answers (record_attempt s h d c) =
     (if c then int_incr (correct_answers s) else correct_answers s)"
  by (simp add: record_attempt_def Let_def split: option.splits)

lemma record_attempt_by_category:
  "by_category (record_attempt s h d c) =
     (case by_category s h of
        None \<Rightarrow> by_category s
      | Some cd \<Rightarrow> (by_category s)(h \<mapsto> bump c cd))"
  by (simp add: record_attempt_def Let_def bump_def split: option.splits)

lemma record_attempt_by_dealer_strength:
  "by_dealer_strength (record_attempt s h d c) =
     (case by_dealer_strength s d of
        None \<Rightarrow> by_dealer_strength s
      | Some cd \<Rightarrow> (by_dealer_strength s)(d \<mapsto> bump c cd))"
  by (simp add: record_attempt_def Let_def bump_def split: option.splits)

lemma reset_session_fields:
  "total_attempts (reset_session s) = 0"
  "correct_answers (reset_session s) = 0"
  "by_category (reset_session s) k = map_option (\<lambda>_. CategoryData0) (by_category s k)"
  "by_dealer_strength (reset_session s) k =
     map_option (\<lambda>_. CategoryData0) (by_dealer_strength s k)"
  by (simp_all add: reset_session_def)

lemma reset_session_dom:
  "dom (by_category (reset_session s)) = dom (by_category s)"
  "dom (by_dealer_strength (reset_session s)) = dom (by_dealer_strength s)"
  by (auto simp: reset_session_fields dom_def)

lemma after_snoc: "after (calls @ [x]) = do_call (after calls) x"
  by (simp add: after_def)

lemma attempts_since_reset_snoc:
  "attempts_since_reset (calls @ [x]) = count_call (attempts_since_reset calls) x"
  by (simp add: attempts_since_reset_def)

subsection \<open>The key sets never change\<close>

lemma bucket_step_dom:
  "dom (case m k of None \<Rightarrow> m | Some cd \<Rightarrow> m(k \<mapsto> f cd)) = dom m"
  by (auto split: option.splits)

lemma keys_inv_init: "keys_inv Statistics"
  by (simp add: keys_inv_def Statistics_def insert_commute)

lemma keys_inv_record_attempt: "keys_inv s \<Longrightarrow> keys_inv (record_attempt s h d c)"
  unfolding keys_inv_def record_attempt_by_category record_attempt_by_dealer_strength
    bucket_step_dom
  by assumption

lemma keys_inv_reset_session: "keys_inv s \<Longrightarrow> keys_inv (reset_session s)"
  unfolding keys_inv_def reset_session_dom by assumption

lemma keys_inv_after: "keys_inv (after calls)"
proof (induction calls rule: rev_induct)
  case Nil
  show ?case by (simp add: after_def keys_inv_init)
next
  case (snoc x calls)
  show ?case
    unfolding after_snoc
    by (cases x) (simp_all add: snoc.IH keys_inv_record_attempt keys_inv_reset_session)
qed

lemma keys_inv_dom:
  assumes "keys_inv s"
  shows "dom (by_category s) = {''hard'', ''soft'', ''pair''}"
    and "dom (by_dealer_strength s) = {''weak'', ''medium'', ''strong''}"
  using assms by (simp_all add: keys_inv_def)

lemma reset_session_fresh:
  assumes "keys_inv s"
  shows "reset_session s = Statistics"
proof -
  note dc = keys_inv_dom(1) [OF assms] and dd = keys_inv_dom(2) [OF assms]
  have c: "by_category (reset_session s) k = by_category Statistics k" for k
  proof (cases "by_category s k")
    case None
    then have "k \<notin> {''hard'', ''soft'', ''pair''}"
      using dc by (metis domIff)
    with None show ?thesis
      by (simp add: reset_session_fields Statistics_def)
  next
    case (Some cd)
    then have "k \<in> {''hard'', ''soft'', ''pair''}"
      using dc by (metis domI)
    with Some show ?thesis
      by (auto simp: reset_session_fields Statistics_def)
  qed
  have d: "by_dealer_strength (reset_session s) k = by_dealer_strength Statistics k" for k
  proof (cases "by_dealer_strength s k")
    case None
    then have "k \<notin> {''weak'', ''medium'', ''strong''}"
      using dd by (metis domIff)
    with None show ?thesis
      by (simp add: reset_session_fields Statistics_def)
  next
    case (Some cd)
    then have "k \<in> {''weak'', ''medium'', ''strong''}"
      using dd by (metis domI)
    with Some show ?thesis
      by (auto simp: reset_session_fields Statistics_def)
  qed
  have "total_attempts (reset_session s) = total_attempts Statistics"
    "correct_answers (reset_session s) = correct_answers Statistics"
    "by_category (reset_session s) = by_category Statistics"
    "by_dealer_strength (reset_session s) = by_dealer_strength Statistics"
    "statistics.more (reset_session s) = statistics.more Statistics"
    using c d by (auto simp: reset_session_fields(1,2) Statistics_def)
  then show ?thesis
    by (rule statistics.equality)
qed

lemma reset_session_after: "reset_session (after calls) = Statistics"
  by (rule reset_session_fresh) (rule keys_inv_after)

subsection \<open>Below \<open>2^31\<close> attempts no counter wraps\<close>

lemma int_incr_below: "x < 2147483647 \<Longrightarrow> int_incr x = x + 1"
  by (simp add: int_incr_def)

lemma counted_zero: "counted 0 CategoryData0"
  by (simp add: counted_def CategoryData0_def)

lemma counted_Suc: "counted n cd \<Longrightarrow> counted (Suc n) cd"
  by (simp add: counted_def)

lemma counted_bump:
  assumes "counted n cd" and "int n < 2147483647"
  shows "counted (Suc n) (bump c cd)"
proof -
  have t: "total_n cd < 2147483647" and k: "correct_n cd < 2147483647"
    using assms by (simp_all add: counted_def)
  show ?thesis
    using assms(1) by (simp add: counted_def bump_def int_incr_below [OF t] int_incr_below [OF k])
qed

lemma bucket_step_counted:
  assumes "\<forall>k cd. m k = Some cd \<longrightarrow> counted n cd" and "int n < 2147483647"
  shows "\<forall>k' cd. (case m k of None \<Rightarrow> m | Some cd \<Rightarrow> m(k \<mapsto> bump c cd)) k' = Some cd
           \<longrightarrow> counted (Suc n) cd"
  using assms
  by (auto split: option.splits if_splits intro: counted_bump counted_Suc)

lemma counting_inv_init: "counting_inv 0 Statistics"
  by (simp add: counting_inv_def Statistics_def counted_zero)

lemma counting_inv_record_attempt:
  assumes "counting_inv n s" and "int n < 2147483647"
  shows "counting_inv (Suc n) (record_attempt s h d c)"
proof -
  have t: "total_attempts s = int n"
    and g: "0 \<le> correct_answers s" "correct_answers s \<le> int n"
    and cc: "\<forall>k cd. by_category s k = Some cd \<longrightarrow> counted n cd"
    and cd: "\<forall>k cd. by_dealer_strength s k = Some cd \<longrightarrow> counted n cd"
    using assms(1) by (simp_all add: counting_inv_def)
  have t': "total_attempts s < 2147483647" and g': "correct_answers s < 2147483647"
    using t g assms(2) by simp_all
  have "total_attempts (record_attempt s h d c) = int (Suc n)"
    using t by (simp add: record_attempt_total_attempts int_incr_below [OF assms(2)])
  moreover have "0 \<le> correct_answers (record_attempt s h d c)"
    using g by (simp add: record_attempt_correct_answers int_incr_below [OF g'])
  moreover have "correct_answers (record_attempt s h d c) \<le> int (Suc n)"
    using g by (simp add: record_attempt_correct_answers int_incr_below [OF g'])
  moreover have "\<forall>k cd. by_category (record_attempt s h d c) k = Some cd
      \<longrightarrow> counted (Suc n) cd"
    unfolding record_attempt_by_category
    by (rule bucket_step_counted) (rule cc, rule assms(2))
  moreover have "\<forall>k cd. by_dealer_strength (record_attempt s h d c) k = Some cd
      \<longrightarrow> counted (Suc n) cd"
    unfolding record_attempt_by_dealer_strength
    by (rule bucket_step_counted) (rule cd, rule assms(2))
  ultimately show ?thesis
    by (simp only: counting_inv_def simp_thms)
qed

lemma counting_inv_after:
  "attempts_since_reset calls < 2147483648 \<Longrightarrow>
     counting_inv (attempts_since_reset calls) (after calls)"
proof (induction calls rule: rev_induct)
  case Nil
  show ?case
    by (simp add: after_def attempts_since_reset_def counting_inv_init)
next
  case (snoc x calls)
  show ?case
  proof (cases x)
    case ResetSession
    then show ?thesis
      by (simp add: after_snoc attempts_since_reset_snoc reset_session_after counting_inv_init)
  next
    case (RecordAttempt h d c)
    with snoc.prems have b: "Suc (attempts_since_reset calls) < 2147483648"
      by (simp add: attempts_since_reset_snoc)
    then have "counting_inv (attempts_since_reset calls) (after calls)"
      by (intro snoc.IH) simp
    moreover have "int (attempts_since_reset calls) < 2147483647"
      using b by simp
    ultimately have "counting_inv (Suc (attempts_since_reset calls))
        (record_attempt (after calls) h d c)"
      by (rule counting_inv_record_attempt)
    with RecordAttempt show ?thesis
      by (simp add: after_snoc attempts_since_reset_snoc)
  qed
qed

subsection \<open>Percentages\<close>

lemma percentage_bounds:
  assumes "rounding rnd" and "0 \<le> c" and "c \<le> t" and "t \<noteq> 0"
  shows "\<exists>a. percentage rnd c t = Some a \<and> 0 \<le> a \<and> a \<le> 100"
proof -
  have m: "\<And>x y. x \<le> y \<Longrightarrow> rnd x \<le> rnd y"
    and r0: "rnd 0 = 0" and r1: "rnd 1 = 1" and r100: "rnd 100 = 100"
    using assms(1) by (auto simp: rounding_def mono_def)
  have pos: "0 < real_of_int t"
    using assms(2-4) by simp
  have q0: "0 \<le> real_of_int c / real_of_int t"
    using assms(2) pos by simp
  have q1: "real_of_int c / real_of_int t \<le> 1"
    using assms(3) pos by simp
  have "rnd 0 \<le> rnd (real_of_int c / real_of_int t)"
    by (rule m) (rule q0)
  then have a0: "0 \<le> rnd (real_of_int c / real_of_int t)"
    by (simp add: r0)
  have "rnd (real_of_int c / real_of_int t) \<le> rnd 1"
    by (rule m) (rule q1)
  then have a1: "rnd (real_of_int c / real_of_int t) \<le> 1"
    by (simp add: r1)
  have "rnd 0 \<le> rnd (rnd (real_of_int c / real_of_int t) * 100)"
    by (rule m) (use a0 in simp)
  moreover have "rnd (rnd (real_of_int c / real_of_int t) * 100) \<le> rnd 100"
    by (rule m) (use a1 in simp)
  ultimately show ?thesis
    using assms(4) by (simp add: percentage_def r0 r100)
qed

lemma rounding_exact: "rounding exact"
  by (simp add: rounding_def exact_def mono_def)

lemma bucket_accuracy_bounds:
  assumes "rounding rnd" and "\<forall>k cd. m k = Some cd \<longrightarrow> counted n cd"
  shows "\<exists>a. (case m k of None \<Rightarrow> Some 0
               | Some cd \<Rightarrow> if total_n cd = 0 then Some 0
                           else percentage rnd (correct_n cd) (total_n cd)) = Some a \<and>
              0 \<le> a \<and> a \<le> 100"
proof (cases "m k")
  case None
  then show ?thesis by simp
next
  case (Some cd)
  then have c: "0 \<le> correct_n cd" "correct_n cd \<le> total_n cd"
    using assms(2) by (auto simp: counted_def)
  show ?thesis
  proof (cases "total_n cd = 0")
    case True
    with Some show ?thesis by simp
  next
    case False
    with Some percentage_bounds [OF assms(1) c False] show ?thesis by simp
  qed
qed

subsection \<open>A run of wrong answers\<close>

lemma misses_counters:
  assumes "total_attempts s + int n \<le> 2147483647"
  shows "total_attempts (foldl do_call s (replicate n (RecordAttempt h d False))) =
           total_attempts s + int n \<and>
         correct_answers (foldl do_call s (replicate n (RecordAttempt h d False))) =
           correct_answers s"
  using assms
proof (induction n arbitrary: s)
  case 0
  show ?case by simp
next
  case (Suc n)
  have b: "total_attempts s < 2147483647"
    using Suc.prems by simp
  have t: "total_attempts (record_attempt s h d False) = total_attempts s + 1"
    by (simp add: record_attempt_total_attempts int_incr_below [OF b])
  have c: "correct_answers (record_attempt s h d False) = correct_answers s"
    by (simp add: record_attempt_correct_answers)
  have "total_attempts (record_attempt s h d False) + int n \<le> 2147483647"
    using Suc.prems t by simp
  from Suc.IH [OF this] show ?case
    by (simp add: t c)
qed

subsection \<open>Claims about the statistics\<close>

text \<open>
  C7, as stated: in every state the object can reach, the three accuracies lie in
  [0,100]. The counters are \<open>int\<close>s, and the claim fails at the \<open>2^31\<close>st recorded
  attempt: after one right answer and \<open>2^31 - 1\<close> wrong ones the total counter has
  wrapped to \<open>-2147483648\<close> while the correct counter is 1, and the session accuracy is
  negative.
\<close>

theorem accuracy_overflow_counterexample:
  "get_session_accuracy exact
     (after (RecordAttempt ''hard'' ''weak'' True #
             replicate 2147483646 (RecordAttempt ''hard'' ''weak'' False) @
             [RecordAttempt ''hard'' ''weak'' False])) =
   Some (- (100 / 2147483648))"
proof -
  define s1 where "s1 = record_attempt Statistics ''hard'' ''weak'' True"
  define s2 where
    "s2 = foldl do_call s1 (replicate 2147483646 (RecordAttempt ''hard'' ''weak'' False))"
  define s3 where "s3 = record_attempt s2 ''hard'' ''weak'' False"
  have run: "after (RecordAttempt ''hard'' ''weak'' True #
             replicate 2147483646 (RecordAttempt ''hard'' ''weak'' False) @
             [RecordAttempt ''hard'' ''weak'' False]) = s3"
    unfolding after_def s3_def s2_def s1_def
    by (simp only: foldl_Cons foldl_append foldl_Nil do_call.simps)
  have t1: "total_attempts s1 = 1" and c1: "correct_answers s1 = 1"
    unfolding s1_def
    by (simp_all add: record_attempt_total_attempts record_attempt_correct_answers
          Statistics_def int_incr_def)
  have "total_attempts s1 + int 2147483646 \<le> 2147483647"
    by (simp add: t1)
  from misses_counters [OF this, of "''hard''" "''weak''"]
  have t2: "total_attempts s2 = 2147483647" and c2: "correct_answers s2 = 1"
    unfolding s2_def by (simp_all add: t1 c1)
  have t3: "total_attempts s3 = - 2147483648" and c3: "correct_answers s3 = 1"
    unfolding s3_def
    by (simp_all add: record_attempt_total_attempts record_attempt_correct_answers
          t2 c2 int_incr_def)
  show ?thesis
    unfolding run
    by (simp add: get_session_accuracy_def percentage_def exact_def t3 c3)
qed

text \<open>
  C7, amended: in every state that the constructor and any sequence of \<open>record_attempt\<close>
  and \<open>reset_session\<close> calls produce with fewer than \<open>2^31\<close> attempts recorded since the
  construction or the last reset, \<open>get_category_accuracy\<close>,
  \<open>get_dealer_strength_accuracy\<close> (for every key) and \<open>get_session_accuracy\<close> return a
  number in [0,100]. In any state at all, whatever the correct count, each of them
  returns exactly 0 when the total counter it would divide by is 0, and when the key has
  no bucket: no division by zero takes place.
\<close>

theorem accuracy_in_range:
  assumes "rounding rnd" and "attempts_since_reset calls < 2147483648"
  shows "(\<exists>a. get_category_accuracy rnd (after calls) k = Some a \<and> 0 \<le> a \<and> a \<le> 100) \<and>
         (\<exists>a. get_dealer_strength_accuracy rnd (after calls) k = Some a \<and>
              0 \<le> a \<and> a \<le> 100) \<and>
         (\<exists>a. get_session_accuracy rnd (after calls) = Some a \<and> 0 \<le> a \<and> a \<le> 100) \<and>
         (total_attempts s = 0 \<longrightarrow> get_session_accuracy rnd s = Some 0) \<and>
         (by_category s k = None \<or> (\<exists>cd. by_category s k = Some cd \<and> total_n cd = 0)
            \<longrightarrow> get_category_accuracy rnd s k = Some 0) \<and>
         (by_dealer_strength s k = None \<or>
            (\<exists>cd. by_dealer_strength s k = Some cd \<and> total_n cd = 0)
            \<longrightarrow> get_dealer_strength_accuracy rnd s k = Some 0)"
proof -
  let ?n = "attempts_since_reset calls"
  have inv: "counting_inv ?n (after calls)"
    by (rule counting_inv_after) (rule assms(2))
  have cat: "\<exists>a. get_category_accuracy rnd (after calls) k = Some a \<and> 0 \<le> a \<and> a \<le> 100"
    unfolding get_category_accuracy_def
    by (rule bucket_accuracy_bounds [OF assms(1), of _ ?n])
      (use inv in \<open>simp add: counting_inv_def\<close>)
  have dlr: "\<exists>a. get_dealer_strength_accuracy rnd (after calls) k = Some a \<and>
      0 \<le> a \<and> a \<le> 100"
    unfolding get_dealer_strength_accuracy_def
    by (rule bucket_accuracy_bounds [OF assms(1), of _ ?n])
      (use inv in \<open>simp add: counting_inv_def\<close>)
  have ses: "\<exists>a. get_session_accuracy rnd (after calls) = Some a \<and> 0 \<le> a \<and> a \<le> 100"
  proof (cases "total_attempts (after calls) = 0")
    case True
    then show ?thesis by (simp add: get_session_accuracy_def)
  next
    case False
    have "0 \<le> correct_answers (after calls)"
      "correct_answers (after calls) \<le> total_attempts (after calls)"
      using inv by (simp_all add: counting_inv_def)
    from percentage_bounds [OF assms(1) this False] False show ?thesis
      by (simp add: get_session_accuracy_def)
  qed
  have z1: "total_attempts s = 0 \<longrightarrow> get_session_accuracy rnd s = Some 0"
    by (simp add: get_session_accuracy_def)
  have z2: "by_category s k = None \<or> (\<exists>cd. by_category s k = Some cd \<and> total_n cd = 0)
            \<longrightarrow> get_category_accuracy rnd s k = Some 0"
    by (auto simp: get_category_accuracy_def)
  have z3: "by_dealer_strength s k = None \<or>
            (\<exists>cd. by_dealer_strength s k = Some cd \<and> total_n cd = 0)
            \<longrightarrow> get_dealer_strength_accuracy rnd s k = Some 0"
    by (auto simp: get_dealer_strength_accuracy_def)
  from cat dlr ses z1 z2 z3 show ?thesis
    by (intro conjI)
qed

theorem accuracy_in_range_witness:
  "rounding exact \<and>
   attempts_since_reset
     [RecordAttempt ''hard'' ''weak'' True, RecordAttempt ''hard'' ''weak'' False] < 2147483648 \<and>
   total_attempts Statistics = 0 \<and>
   by_category Statistics ''hard'' = Some CategoryData0 \<and> total_n CategoryData0 = 0 \<and>
   by_dealer_strength Statistics ''banana'' = None \<and>
   get_session_accuracy exact Statistics = Some 0 \<and>
   get_category_accuracy exact Statistics ''hard'' = Some 0 \<and>
   get_dealer_strength_accuracy exact Statistics ''banana'' = Some 0 \<and>
   get_session_accuracy exact
     (after [RecordAttempt ''hard'' ''weak'' True, RecordAttempt ''hard'' ''weak'' False]) =
     Some 50"
proof -
  have a: "total_attempts Statistics = 0"
    "by_category Statistics ''hard'' = Some CategoryData0" "total_n CategoryData0 = 0"
    "by_dealer_strength Statistics ''banana'' = None"
    by (simp_all add: Statistics_def CategoryData0_def)
  have b: "attempts_since_reset
      [RecordAttempt ''hard'' ''weak'' True, RecordAttempt ''hard'' ''weak'' False] < 2147483648"
    "attempts_since_reset [] < 2147483648"
    by (simp_all add: attempts_since_reset_def)
  have e: "get_session_accuracy exact
     (after [RecordAttempt ''hard'' ''weak'' True, RecordAttempt ''hard'' ''weak'' False]) =
     Some 50"
    by (simp add: after_def get_session_accuracy_def percentage_def exact_def
          record_attempt_total_attempts record_attempt_correct_answers Statistics_def
          int_incr_def)
  show ?thesis
    using accuracy_in_range [OF rounding_exact b(1), of "''hard''" Statistics]
      accuracy_in_range [OF rounding_exact b(2), of "''banana''" Statistics]
      a b(1) e rounding_exact
    by simp
qed

text \<open>
  C8. \<open>reset_session\<close> zeroes the global attempt and correct counters and every bucket of
  both maps and keeps the keys of both maps, so that afterwards every accuracy query returns
  0; applied to a state the object can be in, it gives back the freshly constructed
  object; and applying it twice is applying it once.
\<close>

theorem reset_session_zeroes:
  "total_attempts (reset_session s) = 0 \<and>
   correct_answers (reset_session s) = 0 \<and>
   by_category (reset_session s) k = map_option (\<lambda>_. CategoryData0) (by_category s k) \<and>
   by_dealer_strength (reset_session s) k =
     map_option (\<lambda>_. CategoryData0) (by_dealer_strength s k) \<and>
   dom (by_category (reset_session s)) = dom (by_category s) \<and>
   dom (by_dealer_strength (reset_session s)) = dom (by_dealer_strength s) \<and>
   get_session_accuracy rnd (reset_session s) = Some 0 \<and>
   get_category_accuracy rnd (reset_session s) k = Some 0 \<and>
   get_dealer_strength_accuracy rnd (reset_session s) k = Some 0 \<and>
   reset_session (after calls) = Statistics \<and>
   reset_session (reset_session s) = reset_session s"
proof -
  have acc: "get_session_accuracy rnd (reset_session s) = Some 0"
    "get_category_accuracy rnd (reset_session s) k = Some 0"
    "get_dealer_strength_accuracy rnd (reset_session s) k = Some 0"
    by (simp_all add: get_session_accuracy_def get_category_accuracy_def
          get_dealer_strength_accuracy_def reset_session_fields CategoryData0_def
          split: option.splits)
  have idem: "reset_session (reset_session s) = reset_session s"
    by (simp add: reset_session_def option.map_comp comp_def)
  from acc idem show ?thesis
    by (simp add: reset_session_fields reset_session_dom reset_session_after)
qed

theorem reset_session_zeroes_witness:
  "get_session_accuracy exact (after [RecordAttempt ''hard'' ''weak'' True]) = Some 100 \<and>
   get_session_accuracy exact (reset_session (after [RecordAttempt ''hard'' ''weak'' True])) =
     Some 0 \<and>
   by_category (reset_session (after [RecordAttempt ''hard'' ''weak'' True])) ''hard'' =
     Some CategoryData0 \<and>
   reset_session (after [RecordAttempt ''hard'' ''weak'' True]) = Statistics"
proof -
  have b: "get_session_accuracy exact (after [RecordAttempt ''hard'' ''weak'' True]) = Some 100"
    by (simp add: after_def get_session_accuracy_def percentage_def exact_def
          record_attempt_total_attempts record_attempt_correct_answers Statistics_def
          int_incr_def)
  have c: "by_category (after [RecordAttempt ''hard'' ''weak'' True]) ''hard'' \<noteq> None"
    by (simp add: after_def record_attempt_by_category Statistics_def)
  show ?thesis
    using reset_session_zeroes [of "after [RecordAttempt ''hard'' ''weak'' True]" "''hard''"
        exact "[RecordAttempt ''hard'' ''weak'' True]"] b c
    by auto
qed



subsection \<open>Draws\<close>

lemma uniform_int_distribution_range:
  assumes "a \<le> b"
  shows "a \<le> fst (uniform_int_distribution a b gen) \<and>
         fst (uniform_int_distribution a b gen) \<le> b"
proof -
  have n: "0 < nat (b - a + 1)"
    using assms by simp
  have "gen 0 mod nat (b - a + 1) < nat (b - a + 1)"
    using n by (rule mod_less_divisor)
  then have "int (gen 0 mod nat (b - a + 1)) < b - a + 1"
    using assms by linarith
  then show ?thesis
    by (simp add: uniform_int_distribution_def)
qed

lemma uniform_int_distribution_covers:
  assumes "a \<le> v" and "v \<le> b"
  shows "fst (uniform_int_distribution a b (constant_gen (nat (v - a)))) = v"
  using assms by (simp add: uniform_int_distribution_def constant_gen_def nat_mod_distrib)

lemma uniform_int_distribution_constant:
  "uniform_int_distribution a b (constant_gen n) =
     (a + int (n mod nat (b - a + 1)), constant_gen n)"
  by (simp add: uniform_int_distribution_def constant_gen_def)

subsection \<open>The peel-off loop\<close>

lemma peel_loop_exit:
  "\<not> remaining > 10 \<Longrightarrow> peel_loop cards remaining gen = Some (cards, remaining, gen)"
  by (subst peel_loop.simps) simp

lemma peel_loop_step:
  assumes "remaining > 10"
  shows "peel_loop cards remaining gen =
           peel_loop (cards @ [fst (uniform_int_distribution 2 (min 10 (remaining - 2)) gen)])
             (remaining - fst (uniform_int_distribution 2 (min 10 (remaining - 2)) gen))
             (snd (uniform_int_distribution 2 (min 10 (remaining - 2)) gen))"
proof -
  have "\<not> min 10 (remaining - 2) < 2"
    using assms by simp
  then show ?thesis
    using assms by (subst peel_loop.simps) (simp add: Let_def case_prod_beta)
qed

lemma peel_draw:
  assumes "remaining > 10"
  shows "2 \<le> fst (uniform_int_distribution 2 (min 10 (remaining - 2)) gen) \<and>
         fst (uniform_int_distribution 2 (min 10 (remaining - 2)) gen) \<le> 10 \<and>
         2 \<le> remaining - fst (uniform_int_distribution 2 (min 10 (remaining - 2)) gen)"
proof -
  have "2 \<le> min 10 (remaining - 2)"
    using assms by simp
  from uniform_int_distribution_range [OF this, of gen] show ?thesis
    by auto
qed

lemma peel_loop_result:
  assumes "2 \<le> remaining"
  shows "\<exists>more r gen'. peel_loop cards remaining gen = Some (cards @ more, r, gen') \<and>
           2 \<le> r \<and> r \<le> 10 \<and> sum_list more + r = remaining \<and>
           (\<forall>c\<in>set more. 2 \<le> c \<and> c \<le> 10)"
  using assms
proof (induction "nat remaining" arbitrary: cards remaining gen rule: less_induct)
  case less
  show ?case
  proof (cases "remaining > 10")
    case False
    with less.prems have "peel_loop cards remaining gen = Some (cards @ [], remaining, gen) \<and>
        2 \<le> remaining \<and> remaining \<le> 10 \<and> sum_list [] + remaining = remaining \<and>
        (\<forall>c\<in>set ([]::int list). 2 \<le> c \<and> c \<le> 10)"
      by (simp add: peel_loop_exit)
    then show ?thesis by blast
  next
    case True
    define c where "c = fst (uniform_int_distribution 2 (min 10 (remaining - 2)) gen)"
    define g where "g = snd (uniform_int_distribution 2 (min 10 (remaining - 2)) gen)"
    have c: "2 \<le> c" "c \<le> 10" "2 \<le> remaining - c"
      using peel_draw [OF True, of gen] by (simp_all add: c_def)
    have step: "peel_loop cards remaining gen = peel_loop (cards @ [c]) (remaining - c) g"
      unfolding c_def g_def by (rule peel_loop_step) (rule True)
    have "nat (remaining - c) < nat remaining"
      using c by linarith
    from less.hyps [OF this c(3), of "cards @ [c]" g]
    obtain more r gen' where
      m: "peel_loop (cards @ [c]) (remaining - c) g = Some ((cards @ [c]) @ more, r, gen')"
        "2 \<le> r" "r \<le> 10" "sum_list more + r = remaining - c"
        "\<forall>x\<in>set more. 2 \<le> x \<and> x \<le> 10"
      by blast
    have "peel_loop cards remaining gen = Some (cards @ (c # more), r, gen') \<and>
        2 \<le> r \<and> r \<le> 10 \<and> sum_list (c # more) + r = remaining \<and>
        (\<forall>x\<in>set (c # more). 2 \<le> x \<and> x \<le> 10)"
      using m c step by simp
    then show ?thesis by blast
  qed
qed

lemma peel_loop_terminates: "\<exists>r. peel_loop cards remaining gen = Some r"
proof (cases "2 \<le> remaining")
  case True
  from peel_loop_result [OF this, of cards gen] show ?thesis by blast
next
  case False
  then have "\<not> remaining > 10" by simp
  then show ?thesis by (simp add: peel_loop_exit)
qed

subsection \<open>Hard hands\<close>

lemma first_draw:
  assumes "12 \<le> player_total"
  shows "2 \<le> fst (uniform_int_distribution 2 (min 10 (player_total - 2)) gen) \<and>
         fst (uniform_int_distribution 2 (min 10 (player_total - 2)) gen) \<le> min 10 (player_total - 2) \<and>
         2 \<le> player_total - fst (uniform_int_distribution 2 (min 10 (player_total - 2)) gen)"
proof -
  have "2 \<le> min 10 (player_total - 2)"
    using assms by simp
  from uniform_int_distribution_range [OF this, of gen] show ?thesis
    by auto
qed

lemma generate_hard_low:
  assumes "player_total \<le> 11"
  shows "generate_hand_cards gen ''hard'' player_total = Some [player_total]"
  using assms by (simp add: generate_hand_cards_def)

lemma generate_hard_high:
  assumes "12 \<le> player_total"
  shows "\<exists>cards. generate_hand_cards gen ''hard'' player_total = Some cards \<and>
           sum_list cards = player_total \<and> 2 \<le> length cards \<and>
           (\<forall>c\<in>set cards. 2 \<le> c \<and> c \<le> 10)"
proof -
  define f where "f = fst (uniform_int_distribution 2 (min 10 (player_total - 2)) gen)"
  define g where "g = snd (uniform_int_distribution 2 (min 10 (player_total - 2)) gen)"
  have m: "min 10 (player_total - 2) = 10"
    using assms by simp
  have u: "uniform_int_distribution 2 10 gen = (f, g)"
    by (simp add: f_def g_def m)
  have f: "2 \<le> f" "f \<le> 10" "2 \<le> player_total - f"
    using first_draw [OF assms, of gen] by (simp_all add: f_def)
  show ?thesis
  proof (cases "player_total - f > 10")
    case True
    from peel_loop_result [OF f(3), of "[f]" g]
    obtain more r gen' where
      p: "peel_loop [f] (player_total - f) g = Some ([f] @ more, r, gen')"
        "2 \<le> r" "r \<le> 10" "sum_list more + r = player_total - f"
        "\<forall>x\<in>set more. 2 \<le> x \<and> x \<le> 10"
      by blast
    have "generate_hand_cards gen ''hard'' player_total = Some (f # more @ [r])"
      using assms True p(1,2) by (simp add: generate_hand_cards_def m u Let_def)
    moreover have "sum_list (f # more @ [r]) = player_total"
      using p(4) by simp
    moreover have "2 \<le> length (f # more @ [r])"
      by simp
    moreover have "\<forall>c\<in>set (f # more @ [r]). 2 \<le> c \<and> c \<le> 10"
      using f p(2,3,5) by auto
    ultimately show ?thesis by blast
  next
    case False
    have "generate_hand_cards gen ''hard'' player_total = Some [f, player_total - f]"
      using assms False f(3) by (simp add: generate_hand_cards_def m u Let_def)
    moreover have "sum_list [f, player_total - f] = player_total"
      by simp
    moreover have "\<forall>c\<in>set [f, player_total - f]. 2 \<le> c \<and> c \<le> 10"
      using f False by auto
    ultimately show ?thesis by fastforce
  qed
qed

lemma generate_other_category:
  assumes "hand_type \<noteq> ''pair''" and "hand_type \<noteq> ''soft''"
  shows "generate_hand_cards gen hand_type player_total =
           generate_hand_cards gen ''hard'' player_total"
  using assms by (simp add: generate_hand_cards_def)

lemma generate_hand_cards_returns:
  "\<exists>hand. generate_hand_cards gen hand_type player_total = Some hand"
proof -
  consider (pair) "hand_type = ''pair''" | (soft) "hand_type = ''soft''"
    | (low) "hand_type \<noteq> ''pair''" "hand_type \<noteq> ''soft''" "player_total \<le> 11"
    | (high) "hand_type \<noteq> ''pair''" "hand_type \<noteq> ''soft''" "12 \<le> player_total"
    by linarith
  then show ?thesis
  proof cases
    case pair
    then show ?thesis by (simp add: generate_hand_cards_def)
  next
    case soft
    then show ?thesis by (simp add: generate_hand_cards_def)
  next
    case low
    have "generate_hand_cards gen hand_type player_total = Some [player_total]"
      unfolding generate_other_category [OF low(1,2)] by (rule generate_hard_low) (rule low(3))
    then show ?thesis by blast
  next
    case high
    from generate_hard_high [OF high(3), of gen] show ?thesis
      unfolding generate_other_category [OF high(1,2)] by blast
  qed
qed

lemma peel_loop_constant_19:
  "peel_loop [2] 19 (constant_gen 0) = Some ([2, 2, 2, 2, 2, 2], 9, constant_gen 0)"
  by (simp add: peel_loop_step peel_loop_exit uniform_int_distribution_constant)

subsection \<open>Claims about hand generation\<close>

text \<open>
  C2, as stated: for every hard total in [5,21] no card of the generated hand equals 11
  and every card lies in [2,10]. It fails at total 11, which is at most 11 and so comes
  back as the single card 11.
\<close>

theorem generate_hard_eleven_counterexample:
  "generate_hand_cards (constant_gen 0) ''hard'' 11 = Some [11]"
  by (simp add: generate_hand_cards_def)

text \<open>
  C2, amended: for every hard total in [5,21] and every sequence of draws,
  \<open>generate_hand_cards\<close> returns a card sequence whose sum is the total. For every total
  other than 11, no card equals 11 and every card lies in [2,10]; total 11 gives the
  single card 11. For a total in [5,10] the sequence has exactly one card, for a total of
  12 or more it has two or more.
\<close>

theorem generate_hard_hand_valid:
  assumes "5 \<le> player_total" and "player_total \<le> 21"
  shows "\<exists>cards. generate_hand_cards gen ''hard'' player_total = Some cards \<and>
           sum_list cards = player_total \<and>
           (player_total \<noteq> 11 \<longrightarrow>
              11 \<notin> set cards \<and> (\<forall>c\<in>set cards. 2 \<le> c \<and> c \<le> 10)) \<and>
           (player_total = 11 \<longrightarrow> cards = [11]) \<and>
           (player_total \<le> 10 \<longrightarrow> length cards = 1) \<and>
           (12 \<le> player_total \<longrightarrow> 2 \<le> length cards)"
proof (cases "player_total \<le> 11")
  case True
  with assms(1) generate_hard_low [OF True, of gen] show ?thesis
    by auto
next
  case False
  then have "12 \<le> player_total" by simp
  from generate_hard_high [OF this, of gen] False show ?thesis
    by fastforce
qed

theorem generate_hard_hand_valid_witness:
  "(5::int) \<le> 21 \<and> (21::int) \<le> 21 \<and> (21::int) \<noteq> 11 \<and> (12::int) \<le> 21 \<and>
   generate_hand_cards (constant_gen 0) ''hard'' 21 = Some [2, 2, 2, 2, 2, 2, 9] \<and>
   sum_list [2, 2, 2, 2, 2, 2, 9] = (21::int)"
proof -
  have e: "generate_hand_cards (constant_gen 0) ''hard'' 21 = Some [2, 2, 2, 2, 2, 2, 9]"
    by (simp add: generate_hand_cards_def uniform_int_distribution_constant
          peel_loop_constant_19)
  show ?thesis
    using generate_hard_hand_valid [of 21 "constant_gen 0"] e by simp
qed

text \<open>
  C6. The peel-off loop ends for every card vector, every remaining total and every
  sequence of draws: while the remaining total exceeds 10 the \<open>break\<close> is not taken and
  the iteration draws a card of value at least 2, which makes the remaining total strictly
  smaller; otherwise the loop exits at once. So \<open>generate_hand_cards\<close> returns for
  every category, every total and every sequence of draws.
\<close>

theorem peel_loop_always_terminates:
  "(\<exists>r. peel_loop cards remaining gen = Some r) \<and>
   (remaining > 10 \<longrightarrow>
      (let max_card = min 10 (remaining - 2);
           card' = fst (uniform_int_distribution 2 max_card gen);
           gen' = snd (uniform_int_distribution 2 max_card gen)
       in \<not> max_card < 2 \<and> 2 \<le> card' \<and> remaining - card' < remaining \<and>
          peel_loop cards remaining gen =
            peel_loop (cards @ [card']) (remaining - card') gen')) \<and>
   (\<not> remaining > 10 \<longrightarrow> peel_loop cards remaining gen = Some (cards, remaining, gen)) \<and>
   (\<exists>hand. generate_hand_cards gen hand_type player_total = Some hand)"
proof -
  have step: "remaining > 10 \<longrightarrow>
      (let max_card = min 10 (remaining - 2);
           card' = fst (uniform_int_distribution 2 max_card gen);
           gen' = snd (uniform_int_distribution 2 max_card gen)
       in \<not> max_card < 2 \<and> 2 \<le> card' \<and> remaining - card' < remaining \<and>
          peel_loop cards remaining gen =
            peel_loop (cards @ [card']) (remaining - card') gen')"
  proof
    assume r: "remaining > 10"
    have "\<not> min 10 (remaining - 2) < 2"
      using r by simp
    moreover have "2 \<le> fst (uniform_int_distribution 2 (min 10 (remaining - 2)) gen)"
      using peel_draw [OF r, of gen] by simp
    moreover from this
    have "remaining - fst (uniform_int_distribution 2 (min 10 (remaining - 2)) gen) < remaining"
      by simp
    moreover note peel_loop_step [OF r, of cards gen]
    ultimately show "let max_card = min 10 (remaining - 2);
           card' = fst (uniform_int_distribution 2 max_card gen);
           gen' = snd (uniform_int_distribution 2 max_card gen)
       in \<not> max_card < 2 \<and> 2 \<le> card' \<and> remaining - card' < remaining \<and>
          peel_loop cards remaining gen =
            peel_loop (cards @ [card']) (remaining - card') gen'"
      unfolding Let_def by (intro conjI)
  qed
  have exit: "\<not> remaining > 10 \<longrightarrow>
      peel_loop cards remaining gen = Some (cards, remaining, gen)"
    by (simp add: peel_loop_exit)
  from peel_loop_terminates [of cards remaining gen] step exit
    generate_hand_cards_returns [of gen hand_type player_total]
  show ?thesis
    by (intro conjI)
qed

theorem peel_loop_always_terminates_witness:
  "(19::int) > 10 \<and> \<not> (9::int) > 10 \<and>
   peel_loop [2] 19 (constant_gen 0) = peel_loop [2, 2] 17 (constant_gen 0) \<and>
   peel_loop [2] 19 (constant_gen 0) = Some ([2, 2, 2, 2, 2, 2], 9, constant_gen 0) \<and>
   peel_loop [2, 2, 2, 2, 2, 2] 9 (constant_gen 0) =
     Some ([2, 2, 2, 2, 2, 2], 9, constant_gen 0)"
  using peel_loop_always_terminates [of "[2]" 19 "constant_gen 0" "''hard''" 21]
    peel_loop_always_terminates [of "[2, 2, 2, 2, 2, 2]" 9 "constant_gen 0" "''hard''" 21]
    peel_loop_constant_19
  by (simp add: Let_def uniform_int_distribution_constant)

text \<open>
  C10. For a hard total of 12 or more the first card is drawn from
  [2, min(10, total - 2)], so the second card (total minus first card) is at least 2 and
  the branch that falls back to the single card \<open>player_total\<close> is never taken: the hand
  has two or more cards, none above 10, and is not the total as a single card.
\<close>

theorem hard_fallback_unreachable:
  assumes "12 \<le> player_total"
  shows "(let first_card = fst (uniform_int_distribution 2 (min 10 (player_total - 2)) gen);
              second_card = player_total - first_card
          in 2 \<le> first_card \<and> first_card \<le> min 10 (player_total - 2) \<and>
             \<not> second_card < 2) \<and>
         (\<exists>cards. generate_hand_cards gen ''hard'' player_total = Some cards \<and>
            2 \<le> length cards \<and> (\<forall>c\<in>set cards. c \<le> 10) \<and> cards \<noteq> [player_total])"
proof -
  have a: "let first_card = fst (uniform_int_distribution 2 (min 10 (player_total - 2)) gen);
              second_card = player_total - first_card
          in 2 \<le> first_card \<and> first_card \<le> min 10 (player_total - 2) \<and>
             \<not> second_card < 2"
    using first_draw [OF assms, of gen] by (simp add: Let_def)
  from generate_hard_high [OF assms, of gen]
  obtain cards where c: "generate_hand_cards gen ''hard'' player_total = Some cards"
    "2 \<le> length cards" "\<forall>c\<in>set cards. 2 \<le> c \<and> c \<le> 10"
    by blast
  from c(2) have "cards \<noteq> [player_total]"
    by auto
  with c have "\<exists>cards. generate_hand_cards gen ''hard'' player_total = Some cards \<and>
            2 \<le> length cards \<and> (\<forall>c\<in>set cards. c \<le> 10) \<and> cards \<noteq> [player_total]"
    by blast
  with a show ?thesis
    by (intro conjI)
qed

theorem hard_fallback_unreachable_witness:
  "(12::int) \<le> 12 \<and>
   fst (uniform_int_distribution 2 (min 10 (12 - 2)) (constant_gen 8)) = 10 \<and>
   generate_hand_cards (constant_gen 8) ''hard'' 12 = Some [10, 2]"
proof -
  have e: "generate_hand_cards (constant_gen 8) ''hard'' 12 = Some [10, 2]"
    by (simp add: generate_hand_cards_def uniform_int_distribution_constant)
  show ?thesis
    using hard_fallback_unreachable [of 12 "constant_gen 8"] e
    by (simp add: uniform_int_distribution_constant)
qed

end
